theory Spec2Isabelle
  imports Main
begin

section \<open>Enumerations: CardSuit and CardRank\<close>

text \<open>
  The two \<open>Enum\<close> classes of the source. Each member carries the integer the source
  assigns to it (\<open>.value\<close>); iterating the class visits the members in the order of
  their definition, which is what the \<open>_members\<close> lists record.
\<close>

datatype CardSuit = CLUBS | DIAMONDS | HEARTS | SPADES

datatype CardRank =
  TWO | THREE | FOUR | FIVE | SIX | SEVEN | EIGHT | NINE | TEN | JACK | QUEEN | KING | ACE

fun suit_value :: "CardSuit \<Rightarrow> int" where
  "suit_value CLUBS = 1"
| "suit_value DIAMONDS = 2"
| "suit_value HEARTS = 3"
| "suit_value SPADES = 4"

fun rank_value :: "CardRank \<Rightarrow> int" where
  "rank_value TWO = 2"
| "rank_value THREE = 3"
| "rank_value FOUR = 4"
| "rank_value FIVE = 5"
| "rank_value SIX = 6"
| "rank_value SEVEN = 7"
| "rank_value EIGHT = 8"
| "rank_value NINE = 9"
| "rank_value TEN = 10"
| "rank_value JACK = 11"
| "rank_value QUEEN = 12"
| "rank_value KING = 13"
| "rank_value ACE = 14"

definition CardSuit_members :: "CardSuit list" where
  "CardSuit_members = [CLUBS, DIAMONDS, HEARTS, SPADES]"

definition CardRank_members :: "CardRank list" where
  "CardRank_members =
     [TWO, THREE, FOUR, FIVE, SIX, SEVEN, EIGHT, NINE, TEN, JACK, QUEEN, KING, ACE]"

section \<open>Card\<close>

text \<open>
  A \<open>Card\<close> holds a suit and a rank, fixed by the constructor and read through the
  properties \<open>suit\<close> and \<open>rank\<close>. The class has no method that assigns to them.
\<close>

datatype Card = Card (suit: CardSuit) (rank: CardRank)

text \<open>
  The values a caller can pass where the source expects a card: a \<open>Card\<close>, or
  something else (\<open>None\<close>, an integer, a string stand for the values that are not
  instances of \<open>Card\<close>).
\<close>

datatype pyval = VNone | VInt int | VStr string | VCard (as_Card: Card)

fun isinstance_Card :: "pyval \<Rightarrow> bool" where
  "isinstance_Card (VCard c) = True"
| "isinstance_Card v = False"

text \<open>The errors the source raises or lets the host raise.\<close>

datatype pyerror = TypeError | IndexError

text \<open>
  What a comparison method returns: the singleton \<open>NotImplemented\<close>, by which the
  method declines, or a boolean.
\<close>

datatype pycmp = NotImplemented | PyBool bool

text \<open>
  The comparison of two pairs of integers as the host language defines it on tuples:
  the first position where the components differ decides; pairs that agree everywhere
  are equal, and neither is smaller.
\<close>

definition tuple_eq :: "int \<times> int \<Rightarrow> int \<times> int \<Rightarrow> bool" where
  "tuple_eq a b = (fst a = fst b \<and> snd a = snd b)"

definition tuple_lt :: "int \<times> int \<Rightarrow> int \<times> int \<Rightarrow> bool" where
  "tuple_lt a b =
     (if fst a \<noteq> fst b then fst a < fst b
      else if snd a \<noteq> snd b then snd a < snd b
      else False)"

definition tuple_gt :: "int \<times> int \<Rightarrow> int \<times> int \<Rightarrow> bool" where
  "tuple_gt a b =
     (if fst a \<noteq> fst b then fst a > fst b
      else if snd a \<noteq> snd b then snd a > snd b
      else False)"

text \<open>The pair \<open>(self._rank.value, self._suit.value)\<close> that every comparison and the hash build.\<close>

definition rank_suit_values :: "Card \<Rightarrow> int \<times> int" where
  "rank_suit_values c = (rank_value (rank c), suit_value (suit c))"

definition Card_eq :: "Card \<Rightarrow> pyval \<Rightarrow> pycmp" where
  "Card_eq self other =
     (if \<not> isinstance_Card other then NotImplemented
      else PyBool (tuple_eq (rank_suit_values self) (rank_suit_values (as_Card other))))"

definition Card_lt :: "Card \<Rightarrow> pyval \<Rightarrow> pycmp" where
  "Card_lt self other =
     (if \<not> isinstance_Card other then NotImplemented
      else PyBool (tuple_lt (rank_suit_values self) (rank_suit_values (as_Card other))))"

definition Card_gt :: "Card \<Rightarrow> pyval \<Rightarrow> pycmp" where
  "Card_gt self other =
     (if \<not> isinstance_Card other then NotImplemented
      else PyBool (tuple_gt (rank_suit_values self) (rank_suit_values (as_Card other))))"

text \<open>
  \<open>__hash__\<close> hands the same pair to the host's \<open>hash\<close>. The host function is not
  part of the repository; it is the parameter \<open>tuple_hash\<close>.
\<close>

definition Card_hash :: "(int \<times> int \<Rightarrow> int) \<Rightarrow> Card \<Rightarrow> int" where
  "Card_hash tuple_hash self = tuple_hash (rank_suit_values self)"

section \<open>List objects\<close>

text \<open>
  A list is a mutable object: the deck holds a reference to one, and \<open>list(...)\<close>
  makes another. The store maps each address to the contents of the list object that
  lives there; \<open>next_free\<close> is the first address that no object has yet, so every
  address below it is one of an object that exists. The elements are cards, held by
  value: a \<open>Card\<close> has no method that changes it, so that a list and its copy share
  their elements cannot be observed.
\<close>

type_synonym addr = nat

record heap =
  cells :: "addr \<Rightarrow> Card list"
  next_free :: addr

text \<open>The store before any object exists.\<close>

definition empty_heap :: heap where
  "empty_heap = \<lparr>cells = (\<lambda>a. []), next_free = 0\<rparr>"

text \<open>\<open>list(xs)\<close>: a new list object with the elements of \<open>xs\<close>, in order.\<close>

definition list_new :: "Card list \<Rightarrow> heap \<Rightarrow> addr \<times> heap" where
  "list_new xs h =
     (next_free h, h\<lparr>cells := (cells h)(next_free h := xs), next_free := Suc (next_free h)\<rparr>)"

text \<open>
  Any operation that changes a list object in place (\<open>append\<close>, \<open>pop\<close>, \<open>sort\<close>,
  \<open>del\<close>, item assignment, \<open>random.shuffle\<close>, ...) replaces the contents at the
  object's address by a function of the old contents, and touches nothing else.
\<close>

definition list_mutate :: "addr \<Rightarrow> (Card list \<Rightarrow> Card list) \<Rightarrow> heap \<Rightarrow> heap" where
  "list_mutate a f h = h\<lparr>cells := (cells h)(a := f (cells h a))\<rparr>"

text \<open>
  \<open>xs[i]\<close> for an integer \<open>i\<close>: a negative index counts from the end, and an index
  that is still outside the list raises \<open>IndexError\<close>.
\<close>

definition list_getitem :: "Card list \<Rightarrow> int \<Rightarrow> pyerror + Card" where
  "list_getitem xs i =
     (let n = int (length xs);
          j = (if i < 0 then i + n else i)
      in if j < 0 \<or> n \<le> j then Inl IndexError else Inr (xs ! nat j))"

text \<open>
  The host's \<open>max\<close> and \<open>min\<close> over a list that is not empty: the first element is
  the candidate, and a later item replaces it when \<open>item > candidate\<close> (for \<open>max\<close>) or
  \<open>item < candidate\<close> (for \<open>min\<close>) is true, so among equal extremes the first one is
  returned. Both operands are cards, so the comparison is the card's own method.
\<close>

fun max_loop :: "Card \<Rightarrow> Card list \<Rightarrow> Card" where
  "max_loop maxitem [] = maxitem"
| "max_loop maxitem (item # rest) =
     max_loop (if Card_gt item (VCard maxitem) = PyBool True then item else maxitem) rest"

fun min_loop :: "Card \<Rightarrow> Card list \<Rightarrow> Card" where
  "min_loop minitem [] = minitem"
| "min_loop minitem (item # rest) =
     min_loop (if Card_lt item (VCard minitem) = PyBool True then item else minitem) rest"

section \<open>Deck\<close>

text \<open>
  A \<open>Deck\<close> object has one attribute, \<open>_cards\<close>, a reference to a list object; it is
  assigned in the constructor and never again. Only cards enter that list: the
  constructor builds cards, and \<open>add_card\<close> refuses everything else.
\<close>

record Deck =
  priv_cards :: addr

text \<open>
  The constructor. \<open>random.shuffle\<close> permutes a list in place with the host's random
  generator; the permutation it picks is the parameter \<open>random_shuffle\<close>.
\<close>

definition Deck_init :: "(Card list \<Rightarrow> Card list) \<Rightarrow> bool \<Rightarrow> heap \<Rightarrow> Deck \<times> heap" where
  "Deck_init random_shuffle shuffle h =
     (let (a, h1) = list_new [Card s r. s \<leftarrow> CardSuit_members, r \<leftarrow> CardRank_members] h
      in (\<lparr>priv_cards = a\<rparr>, if shuffle then list_mutate a random_shuffle h1 else h1))"

definition Deck_cards :: "Deck \<Rightarrow> heap \<Rightarrow> addr \<times> heap" where
  "Deck_cards self h = list_new (cells h (priv_cards self)) h"

definition Deck_shuffle :: "(Card list \<Rightarrow> Card list) \<Rightarrow> Deck \<Rightarrow> heap \<Rightarrow> Deck \<times> heap" where
  "Deck_shuffle random_shuffle self h = (self, list_mutate (priv_cards self) random_shuffle h)"

text \<open>\<open>draw\<close>: \<open>pop(0)\<close> when the list is not empty, \<open>None\<close> otherwise.\<close>

definition Deck_draw :: "Deck \<Rightarrow> heap \<Rightarrow> Card option \<times> heap" where
  "Deck_draw self h =
     (case cells h (priv_cards self) of
        [] \<Rightarrow> (None, h)
      | front # rest \<Rightarrow> (Some front, list_mutate (priv_cards self) (\<lambda>xs. rest) h))"

text \<open>
  \<open>add_card\<close> raises \<open>TypeError\<close> before it touches the list, or appends and returns
  \<open>self\<close>. The store is returned in both cases: an exception leaves the state as it is
  at the \<open>raise\<close>.
\<close>

definition Deck_add_card :: "Deck \<Rightarrow> pyval \<Rightarrow> heap \<Rightarrow> (pyerror + Deck) \<times> heap" where
  "Deck_add_card self new_card h =
     (if \<not> isinstance_Card new_card then (Inl TypeError, h)
      else (Inr self, list_mutate (priv_cards self) (\<lambda>xs. xs @ [as_Card new_card]) h))"

definition Deck_len :: "Deck \<Rightarrow> heap \<Rightarrow> nat" where
  "Deck_len self h = length (cells h (priv_cards self))"

definition Deck_getitem :: "Deck \<Rightarrow> int \<Rightarrow> heap \<Rightarrow> pyerror + Card" where
  "Deck_getitem self index h = list_getitem (cells h (priv_cards self)) index"

definition Deck_max :: "Deck \<Rightarrow> heap \<Rightarrow> Card option" where
  "Deck_max self h =
     (case cells h (priv_cards self) of
        [] \<Rightarrow> None
      | first # rest \<Rightarrow> Some (max_loop first rest))"

definition Deck_min :: "Deck \<Rightarrow> heap \<Rightarrow> Card option" where
  "Deck_min self h =
     (case cells h (priv_cards self) of
        [] \<Rightarrow> None
      | first # rest \<Rightarrow> Some (min_loop first rest))"

text \<open>
  \<open>__iter__\<close> is a generator; run to its end on a deck that nobody changes meanwhile,
  it yields the values listed here, in this order.
\<close>

definition Deck_iter :: "Deck \<Rightarrow> heap \<Rightarrow> Card list" where
  "Deck_iter self h =
     (let highest = Deck_max self h;
          lowest = Deck_min self h
      in case (highest, lowest) of
           (Some hi, Some lo) \<Rightarrow> [hi, lo]
         | _ \<Rightarrow> [])"

section \<open>Properties of Card\<close>

lemma suit_value_inj: "suit_value s = suit_value t \<Longrightarrow> s = t"
  by (cases s; cases t) simp_all

lemma rank_value_inj: "rank_value r = rank_value q \<Longrightarrow> r = q"
  by (cases r; cases q) simp_all

lemma rank_suit_values_inj: "rank_suit_values a = rank_suit_values b \<Longrightarrow> a = b"
  by (cases a; cases b) (simp add: rank_suit_values_def suit_value_inj rank_value_inj)

lemma tuple_eq_iff: "tuple_eq p q = (p = q)"
  by (cases p; cases q) (simp add: tuple_eq_def)

lemma tuple_gt_conv: "tuple_gt p q = tuple_lt q p"
  by (auto simp: tuple_gt_def tuple_lt_def)

lemma tuple_lt_irrefl: "\<not> tuple_lt p p"
  by (simp add: tuple_lt_def)

lemma tuple_lt_trans: "tuple_lt p q \<Longrightarrow> tuple_lt q r \<Longrightarrow> tuple_lt p r"
  by (auto simp: tuple_lt_def split: if_splits)

lemma tuple_lt_cases: "tuple_lt p q \<or> p = q \<or> tuple_lt q p"
  by (cases p; cases q) (auto simp: tuple_lt_def)

lemma tuple_lt_asym: "tuple_lt p q \<Longrightarrow> \<not> tuple_lt q p"
  by (auto simp: tuple_lt_def split: if_splits)

text \<open>
  C6. For any two cards \<open>a\<close> and \<open>b\<close>, exactly one of \<open>a < b\<close>, \<open>a == b\<close>,
  \<open>a > b\<close> holds: the three operators return booleans of which exactly one is true.
  The order is the lexicographic one on (rank value, suit value), \<open>==\<close> holds exactly
  for the same suit and rank, \<open>>\<close> is the converse of \<open><\<close>, and \<open><\<close> is transitive:
  a strict total order.
\<close>

theorem Card_total_order:
  "(Card_lt a (VCard b), Card_eq a (VCard b), Card_gt a (VCard b)) \<in>
      {(PyBool True, PyBool False, PyBool False),
       (PyBool False, PyBool True, PyBool False),
       (PyBool False, PyBool False, PyBool True)}
   \<and> Card_lt a (VCard b) =
       PyBool (rank_value (rank a) < rank_value (rank b)
               \<or> (rank_value (rank a) = rank_value (rank b)
                   \<and> suit_value (suit a) < suit_value (suit b)))
   \<and> Card_eq a (VCard b) = PyBool (a = b)
   \<and> Card_gt a (VCard b) = Card_lt b (VCard a)
   \<and> (Card_lt a (VCard b) = PyBool True \<and> Card_lt b (VCard c) = PyBool True
        \<longrightarrow> Card_lt a (VCard c) = PyBool True)"
proof -
  let ?p = "rank_suit_values a" and ?q = "rank_suit_values b"
  have eq: "Card_eq a (VCard b) = PyBool (a = b)"
    using rank_suit_values_inj [of a b] by (auto simp: Card_eq_def tuple_eq_iff)
  have gt: "Card_gt a (VCard b) = Card_lt b (VCard a)"
    by (simp add: Card_gt_def Card_lt_def tuple_gt_conv)
  have lex: "Card_lt a (VCard b) =
       PyBool (rank_value (rank a) < rank_value (rank b)
               \<or> (rank_value (rank a) = rank_value (rank b)
                   \<and> suit_value (suit a) < suit_value (suit b)))"
    by (auto simp: Card_lt_def tuple_lt_def rank_suit_values_def)
  have trans: "Card_lt a (VCard b) = PyBool True \<and> Card_lt b (VCard c) = PyBool True
        \<longrightarrow> Card_lt a (VCard c) = PyBool True"
    using tuple_lt_trans [of ?p ?q "rank_suit_values c"] by (simp add: Card_lt_def)
  have tri: "(Card_lt a (VCard b), Card_eq a (VCard b), Card_gt a (VCard b)) \<in>
      {(PyBool True, PyBool False, PyBool False),
       (PyBool False, PyBool True, PyBool False),
       (PyBool False, PyBool False, PyBool True)}"
  proof -
    consider (less) "tuple_lt ?p ?q" | (same) "?p = ?q" | (more) "tuple_lt ?q ?p"
      using tuple_lt_cases by blast
    then show ?thesis
    proof cases
      case less
      then have "\<not> tuple_lt ?q ?p" and "?p \<noteq> ?q"
        using tuple_lt_asym [of ?p ?q] tuple_lt_irrefl [of ?q] by auto
      with less show ?thesis
        by (simp add: Card_lt_def Card_eq_def Card_gt_def tuple_gt_conv tuple_eq_iff)
    next
      case same
      then show ?thesis
        by (simp add: Card_lt_def Card_eq_def Card_gt_def tuple_gt_conv tuple_eq_iff
            tuple_lt_irrefl)
    next
      case more
      then have "\<not> tuple_lt ?p ?q" and "?p \<noteq> ?q"
        using tuple_lt_asym [of ?q ?p] tuple_lt_irrefl [of ?q] by auto
      with more show ?thesis
        by (simp add: Card_lt_def Card_eq_def Card_gt_def tuple_gt_conv tuple_eq_iff)
    qed
  qed
  from tri lex eq gt trans show ?thesis by blast
qed

theorem Card_total_order_witness:
  "Card_lt (Card CLUBS TWO) (VCard (Card SPADES TWO)) = PyBool True
   \<and> Card_lt (Card SPADES TWO) (VCard (Card CLUBS THREE)) = PyBool True
   \<and> Card_lt (Card CLUBS TWO) (VCard (Card CLUBS THREE)) = PyBool True
   \<and> Card_eq (Card CLUBS TWO) (VCard (Card SPADES TWO)) = PyBool False
   \<and> Card_gt (Card CLUBS TWO) (VCard (Card SPADES TWO)) = PyBool False"
  using Card_total_order [of "Card CLUBS TWO" "Card SPADES TWO" "Card CLUBS THREE"]
  by (simp add: Card_lt_def Card_eq_def Card_gt_def rank_suit_values_def
      tuple_lt_def tuple_gt_def tuple_eq_def)

text \<open>
  C7. Given an operand that is not a \<open>Card\<close>, each of \<open>__eq__\<close>, \<open>__lt__\<close> and
  \<open>__gt__\<close> returns \<open>NotImplemented\<close>: the method declines and raises nothing.
\<close>

theorem Card_compare_non_Card:
  "\<not> isinstance_Card v \<Longrightarrow>
     Card_eq a v = NotImplemented \<and> Card_lt a v = NotImplemented
     \<and> Card_gt a v = NotImplemented"
  by (cases v) (simp_all add: Card_eq_def Card_lt_def Card_gt_def)

theorem Card_compare_non_Card_witness:
  "\<not> isinstance_Card (VInt 7)
   \<and> Card_eq (Card HEARTS ACE) (VInt 7) = NotImplemented
   \<and> Card_lt (Card HEARTS ACE) (VInt 7) = NotImplemented
   \<and> Card_gt (Card HEARTS ACE) (VInt 7) = NotImplemented"
  using Card_compare_non_Card [of "VInt 7" "Card HEARTS ACE"] by simp

text \<open>
  C8. Cards that \<open>__eq__\<close> finds equal have the same hash, whatever the host's hash of a
  pair of integers is.
\<close>

theorem Card_hash_eq:
  "Card_eq a (VCard b) = PyBool True \<Longrightarrow> Card_hash tuple_hash a = Card_hash tuple_hash b"
  by (simp add: Card_eq_def Card_hash_def tuple_eq_iff)

theorem Card_hash_eq_witness:
  "Card_eq (Card DIAMONDS QUEEN) (VCard (Card DIAMONDS QUEEN)) = PyBool True
   \<and> Card_hash (\<lambda>(r, s). 31 * r + s) (Card DIAMONDS QUEEN)
       = Card_hash (\<lambda>(r, s). 31 * r + s) (Card DIAMONDS QUEEN)"
  using Card_hash_eq [of "Card DIAMONDS QUEEN" "Card DIAMONDS QUEEN" "\<lambda>(r, s). 31 * r + s"]
  by (simp add: Card_eq_def rank_suit_values_def tuple_eq_def)

section \<open>Properties of the host's max and min on cards\<close>

text \<open>
  The loops return an element of the list they scan, and no element is greater than
  the result of \<open>max_loop\<close> or smaller than that of \<open>min_loop\<close>.
\<close>

lemma Card_gt_True_iff:
  "(Card_gt x (VCard m) = PyBool True) = tuple_lt (rank_suit_values m) (rank_suit_values x)"
  by (simp add: Card_gt_def tuple_gt_conv)

lemma Card_lt_True_iff:
  "(Card_lt x (VCard m) = PyBool True) = tuple_lt (rank_suit_values x) (rank_suit_values m)"
  by (simp add: Card_lt_def)

lemma Card_gt_False_iff:
  "(Card_gt x (VCard m) = PyBool False) = (\<not> tuple_lt (rank_suit_values m) (rank_suit_values x))"
  by (simp add: Card_gt_def tuple_gt_conv)

lemma Card_lt_False_iff:
  "(Card_lt x (VCard m) = PyBool False) = (\<not> tuple_lt (rank_suit_values x) (rank_suit_values m))"
  by (simp add: Card_lt_def)

lemma tuple_ge_trans: "\<not> tuple_lt p q \<Longrightarrow> \<not> tuple_lt q r \<Longrightarrow> \<not> tuple_lt p r"
  by (auto simp: tuple_lt_def split: if_splits)

lemma max_loop_mem: "max_loop m xs \<in> set (m # xs)"
  by (induction xs arbitrary: m) auto

lemma min_loop_mem: "min_loop m xs \<in> set (m # xs)"
  by (induction xs arbitrary: m) auto

lemma max_loop_ge_start:
  "\<not> tuple_lt (rank_suit_values (max_loop m xs)) (rank_suit_values m)"
proof (induction xs arbitrary: m)
  case Nil
  show ?case by (simp add: tuple_lt_irrefl)
next
  case (Cons x xs)
  show ?case
  proof (cases "tuple_lt (rank_suit_values m) (rank_suit_values x)")
    case True
    have "\<not> tuple_lt (rank_suit_values (max_loop x xs)) (rank_suit_values x)"
      by (rule Cons.IH)
    moreover have "\<not> tuple_lt (rank_suit_values x) (rank_suit_values m)"
      using True by (rule tuple_lt_asym)
    ultimately have "\<not> tuple_lt (rank_suit_values (max_loop x xs)) (rank_suit_values m)"
      by (rule tuple_ge_trans)
    with True show ?thesis by (simp add: Card_gt_True_iff)
  next
    case False
    with Cons.IH [of m] show ?thesis by (simp add: Card_gt_True_iff)
  qed
qed

lemma max_loop_ge_all:
  "x \<in> set (m # xs) \<Longrightarrow> \<not> tuple_lt (rank_suit_values (max_loop m xs)) (rank_suit_values x)"
proof (induction xs arbitrary: m)
  case Nil
  then show ?case by (simp add: tuple_lt_irrefl)
next
  case (Cons y ys)
  let ?m' = "if Card_gt y (VCard m) = PyBool True then y else m"
  have step: "max_loop m (y # ys) = max_loop ?m' ys" by simp
  have start: "\<not> tuple_lt (rank_suit_values (max_loop ?m' ys)) (rank_suit_values ?m')"
    by (rule max_loop_ge_start)
  consider (m) "x = m" | (y) "x = y" | (ys) "x \<in> set ys"
    using Cons.prems by auto
  then show ?case
  proof cases
    case m
    have "\<not> tuple_lt (rank_suit_values ?m') (rank_suit_values m)"
      by (auto simp: Card_gt_True_iff tuple_lt_irrefl dest: tuple_lt_asym)
    with start have "\<not> tuple_lt (rank_suit_values (max_loop ?m' ys)) (rank_suit_values m)"
      by (rule tuple_ge_trans)
    with m step show ?thesis by simp
  next
    case y
    have "\<not> tuple_lt (rank_suit_values ?m') (rank_suit_values y)"
      by (auto simp: Card_gt_True_iff tuple_lt_irrefl)
    with start have "\<not> tuple_lt (rank_suit_values (max_loop ?m' ys)) (rank_suit_values y)"
      by (rule tuple_ge_trans)
    with y step show ?thesis by simp
  next
    case ys
    then have "x \<in> set (?m' # ys)" by simp
    then have "\<not> tuple_lt (rank_suit_values (max_loop ?m' ys)) (rank_suit_values x)"
      by (rule Cons.IH)
    with step show ?thesis by simp
  qed
qed

lemma min_loop_le_start:
  "\<not> tuple_lt (rank_suit_values m) (rank_suit_values (min_loop m xs))"
proof (induction xs arbitrary: m)
  case Nil
  show ?case by (simp add: tuple_lt_irrefl)
next
  case (Cons x xs)
  show ?case
  proof (cases "tuple_lt (rank_suit_values x) (rank_suit_values m)")
    case True
    then have "\<not> tuple_lt (rank_suit_values m) (rank_suit_values x)"
      by (rule tuple_lt_asym)
    moreover have "\<not> tuple_lt (rank_suit_values x) (rank_suit_values (min_loop x xs))"
      by (rule Cons.IH)
    ultimately have "\<not> tuple_lt (rank_suit_values m) (rank_suit_values (min_loop x xs))"
      by (rule tuple_ge_trans)
    with True show ?thesis by (simp add: Card_lt_True_iff)
  next
    case False
    with Cons.IH [of m] show ?thesis by (simp add: Card_lt_True_iff)
  qed
qed

lemma min_loop_le_all:
  "x \<in> set (m # xs) \<Longrightarrow> \<not> tuple_lt (rank_suit_values x) (rank_suit_values (min_loop m xs))"
proof (induction xs arbitrary: m)
  case Nil
  then show ?case by (simp add: tuple_lt_irrefl)
next
  case (Cons y ys)
  let ?m' = "if Card_lt y (VCard m) = PyBool True then y else m"
  have step: "min_loop m (y # ys) = min_loop ?m' ys" by simp
  have start: "\<not> tuple_lt (rank_suit_values ?m') (rank_suit_values (min_loop ?m' ys))"
    by (rule min_loop_le_start)
  consider (m) "x = m" | (y) "x = y" | (ys) "x \<in> set ys"
    using Cons.prems by auto
  then show ?case
  proof cases
    case m
    have "\<not> tuple_lt (rank_suit_values m) (rank_suit_values ?m')"
      by (auto simp: Card_lt_True_iff tuple_lt_irrefl dest: tuple_lt_asym)
    from this start have "\<not> tuple_lt (rank_suit_values m) (rank_suit_values (min_loop ?m' ys))"
      by (rule tuple_ge_trans)
    with m step show ?thesis by simp
  next
    case y
    have "\<not> tuple_lt (rank_suit_values y) (rank_suit_values ?m')"
      by (auto simp: Card_lt_True_iff tuple_lt_irrefl)
    from this start have "\<not> tuple_lt (rank_suit_values y) (rank_suit_values (min_loop ?m' ys))"
      by (rule tuple_ge_trans)
    with y step show ?thesis by simp
  next
    case ys
    then have "x \<in> set (?m' # ys)" by simp
    then have "\<not> tuple_lt (rank_suit_values x) (rank_suit_values (min_loop ?m' ys))"
      by (rule Cons.IH)
    with step show ?thesis by simp
  qed
qed

section \<open>Properties of Deck\<close>

lemma fresh_deck_cells:
  "Deck_init random_shuffle False h = (d, h') \<Longrightarrow>
     cells h' (priv_cards d) = [Card s r. s \<leftarrow> CardSuit_members, r \<leftarrow> CardRank_members]"
  by (auto simp: Deck_init_def list_new_def)

text \<open>
  C2. A deck constructed with \<open>shuffle=False\<close> holds 52 cards, every card
  \<open>(s, r)\<close> exactly once, at position \<open>13 * (s.value - 1) + (r.value - 2)\<close>: suits in
  the outer order, ranks in the inner one, from Clubs/Two on. The first \<open>draw\<close> returns
  the Two of Clubs and leaves 51 cards.
\<close>

theorem Deck_init_unshuffled:
  assumes "Deck_init random_shuffle False h = (d, h')"
  shows "Deck_len d h' = 52
   \<and> (\<forall>s r. count_list (cells h' (priv_cards d)) (Card s r) = 1)
   \<and> (\<forall>s r. cells h' (priv_cards d) ! nat (13 * (suit_value s - 1) + (rank_value r - 2))
              = Card s r)
   \<and> fst (Deck_draw d h') = Some (Card CLUBS TWO)
   \<and> Deck_len d (snd (Deck_draw d h')) = 51"
proof -
  have xs: "cells h' (priv_cards d) = [Card s r. s \<leftarrow> CardSuit_members, r \<leftarrow> CardRank_members]"
    using assms by (rule fresh_deck_cells)
  have len: "Deck_len d h' = 52"
    unfolding xs Deck_len_def by (simp add: CardSuit_members_def CardRank_members_def)
  have cnt: "count_list (cells h' (priv_cards d)) (Card s r) = 1" for s r
    unfolding xs by (cases s; cases r) (simp_all add: CardSuit_members_def CardRank_members_def)
  have pos: "cells h' (priv_cards d) ! nat (13 * (suit_value s - 1) + (rank_value r - 2)) = Card s r"
    for s r
    unfolding xs by (cases s; cases r) (simp_all add: CardSuit_members_def CardRank_members_def)
  have drw: "fst (Deck_draw d h') = Some (Card CLUBS TWO)"
    by (simp add: Deck_draw_def xs CardSuit_members_def CardRank_members_def)
  have rest: "Deck_len d (snd (Deck_draw d h')) = 51"
    by (simp add: Deck_draw_def Deck_len_def list_mutate_def xs CardSuit_members_def
        CardRank_members_def)
  from len cnt pos drw rest show ?thesis by blast
qed

theorem Deck_init_unshuffled_witness:
  "Deck_len (fst (Deck_init id False empty_heap)) (snd (Deck_init id False empty_heap)) = 52
   \<and> cells (snd (Deck_init id False empty_heap)) (priv_cards (fst (Deck_init id False empty_heap)))
        ! 25 = Card DIAMONDS ACE
   \<and> fst (Deck_draw (fst (Deck_init id False empty_heap)) (snd (Deck_init id False empty_heap)))
        = Some (Card CLUBS TWO)"
proof -
  have eq: "Deck_init id False empty_heap
      = (fst (Deck_init id False empty_heap), snd (Deck_init id False empty_heap))"
    by simp
  have "nat (13 * (suit_value DIAMONDS - 1) + (rank_value ACE - 2)) = 25" by simp
  with Deck_init_unshuffled [OF eq] show ?thesis by metis
qed

text \<open>
  C3. On a deck of \<open>N \<ge> 1\<close> cards, \<open>draw\<close> returns the card at position 0 and
  leaves \<open>N - 1\<close> cards: the former positions \<open>1..N-1\<close>, in the same order.
\<close>

theorem Deck_draw_front:
  assumes "cells h (priv_cards self) \<noteq> []" and "Deck_draw self h = (r, h')"
  shows "r = Some (cells h (priv_cards self) ! 0)
   \<and> Deck_len self h' = Deck_len self h - 1
   \<and> cells h' (priv_cards self) = tl (cells h (priv_cards self))
   \<and> (\<forall>i. i < Deck_len self h' \<longrightarrow>
          cells h' (priv_cards self) ! i = cells h (priv_cards self) ! (i + 1))"
proof -
  from assms(1) obtain c cs where xs: "cells h (priv_cards self) = c # cs"
    by (cases "cells h (priv_cards self)") auto
  with assms(2) have r: "r = Some c" and h': "h' = list_mutate (priv_cards self) (\<lambda>xs. cs) h"
    by (simp_all add: Deck_draw_def)
  from h' have new: "cells h' (priv_cards self) = cs"
    by (simp add: list_mutate_def)
  show ?thesis
    by (simp add: r new xs Deck_len_def)
qed

theorem Deck_draw_front_witness:
  "Deck_draw \<lparr>priv_cards = 0\<rparr>
       \<lparr>cells = (\<lambda>a. [])(0 := [Card HEARTS TEN, Card CLUBS ACE, Card SPADES TWO]), next_free = 1\<rparr>
     = (Some (Card HEARTS TEN),
        \<lparr>cells = (\<lambda>a. [])(0 := [Card CLUBS ACE, Card SPADES TWO]), next_free = 1\<rparr>)"
proof -
  let ?h = "\<lparr>cells = (\<lambda>a. [])(0 := [Card HEARTS TEN, Card CLUBS ACE, Card SPADES TWO]),
             next_free = Suc 0\<rparr>"
  let ?d = "\<lparr>priv_cards = 0\<rparr>"
  have ne: "cells ?h (priv_cards ?d) \<noteq> []" by simp
  have eq: "Deck_draw ?d ?h = (fst (Deck_draw ?d ?h), snd (Deck_draw ?d ?h))" by simp
  from Deck_draw_front [OF ne eq] have "fst (Deck_draw ?d ?h) = Some (Card HEARTS TEN)"
    by simp
  moreover have "snd (Deck_draw ?d ?h)
      = \<lparr>cells = (\<lambda>a. [])(0 := [Card CLUBS ACE, Card SPADES TWO]), next_free = 1\<rparr>"
    by (simp add: Deck_draw_def list_mutate_def)
  ultimately show ?thesis by (simp add: prod_eq_iff)
qed

text \<open>
  C4. On an empty deck \<open>draw\<close>, \<open>max\<close> and \<open>min\<close> return \<open>None\<close> (and \<open>draw\<close>
  changes nothing); none of them has a path that raises. On a deck that is not empty,
  \<open>max\<close> returns a card of the deck that no card of the deck is greater than, and
  \<open>min\<close> a card of the deck that no card of the deck is smaller than.
\<close>

theorem Deck_empty_and_extremes:
  "(cells h (priv_cards self) = [] \<longrightarrow>
      Deck_draw self h = (None, h) \<and> Deck_max self h = None \<and> Deck_min self h = None)
   \<and> (cells h (priv_cards self) \<noteq> [] \<longrightarrow>
        (\<exists>hi. Deck_max self h = Some hi \<and> hi \<in> set (cells h (priv_cards self))
              \<and> (\<forall>x \<in> set (cells h (priv_cards self)). Card_gt x (VCard hi) = PyBool False))
      \<and> (\<exists>lo. Deck_min self h = Some lo \<and> lo \<in> set (cells h (priv_cards self))
              \<and> (\<forall>x \<in> set (cells h (priv_cards self)). Card_lt x (VCard lo) = PyBool False)))"
proof (cases "cells h (priv_cards self)")
  case Nil
  then show ?thesis by (simp add: Deck_draw_def Deck_max_def Deck_min_def)
next
  case (Cons c cs)
  have "max_loop c cs \<in> set (c # cs)" by (rule max_loop_mem)
  moreover have "\<forall>x \<in> set (c # cs). Card_gt x (VCard (max_loop c cs)) = PyBool False"
    using max_loop_ge_all [of _ c cs] by (simp only: Card_gt_False_iff) blast
  moreover have "min_loop c cs \<in> set (c # cs)" by (rule min_loop_mem)
  moreover have "\<forall>x \<in> set (c # cs). Card_lt x (VCard (min_loop c cs)) = PyBool False"
    using min_loop_le_all [of _ c cs] by (simp only: Card_lt_False_iff) blast
  ultimately show ?thesis using Cons by (simp add: Deck_max_def Deck_min_def)
qed

theorem Deck_empty_and_extremes_witness:
  "Deck_draw \<lparr>priv_cards = 0\<rparr> empty_heap = (None, empty_heap)
   \<and> Deck_max \<lparr>priv_cards = 0\<rparr> empty_heap = None
   \<and> Deck_min \<lparr>priv_cards = 0\<rparr> empty_heap = None
   \<and> Deck_max \<lparr>priv_cards = 0\<rparr>
        \<lparr>cells = (\<lambda>a. [])(0 := [Card HEARTS TEN, Card CLUBS ACE, Card SPADES TWO]), next_free = 1\<rparr>
       = Some (Card CLUBS ACE)
   \<and> Deck_min \<lparr>priv_cards = 0\<rparr>
        \<lparr>cells = (\<lambda>a. [])(0 := [Card HEARTS TEN, Card CLUBS ACE, Card SPADES TWO]), next_free = 1\<rparr>
       = Some (Card SPADES TWO)"
proof -
  let ?d = "\<lparr>priv_cards = 0\<rparr>"
  let ?h = "\<lparr>cells = (\<lambda>a. [])(0 := [Card HEARTS TEN, Card CLUBS ACE, Card SPADES TWO]),
             next_free = 1\<rparr>"
  have e: "cells empty_heap (priv_cards ?d) = []" by (simp add: empty_heap_def)
  have n: "cells ?h (priv_cards ?d) \<noteq> []" by simp
  from Deck_empty_and_extremes [of empty_heap ?d] e
  have "Deck_draw ?d empty_heap = (None, empty_heap) \<and> Deck_max ?d empty_heap = None
      \<and> Deck_min ?d empty_heap = None"
    by blast
  moreover from Deck_empty_and_extremes [of ?h ?d] n
  obtain hi lo where "Deck_max ?d ?h = Some hi" and "Deck_min ?d ?h = Some lo" by blast
  moreover have "Deck_max ?d ?h = Some (Card CLUBS ACE)"
    by (simp add: Deck_max_def Card_gt_def rank_suit_values_def tuple_gt_def)
  moreover have "Deck_min ?d ?h = Some (Card SPADES TWO)"
    by (simp add: Deck_min_def Card_lt_def rank_suit_values_def tuple_lt_def)
  ultimately show ?thesis by simp
qed

text \<open>
  C5. \<open>add_card\<close> with an argument that is not a \<open>Card\<close> raises \<open>TypeError\<close> and
  leaves the whole store, so the deck too, as it was. With a \<open>Card\<close> it returns the deck
  itself; the card is then the last element of the deck's list, after the former
  contents, and no other list object has changed.
\<close>

theorem Deck_add_card_cases:
  "(\<not> isinstance_Card x \<longrightarrow> Deck_add_card self x h = (Inl TypeError, h))
   \<and> fst (Deck_add_card self (VCard c) h) = Inr self
   \<and> cells (snd (Deck_add_card self (VCard c) h)) (priv_cards self)
        = cells h (priv_cards self) @ [c]
   \<and> (\<forall>a. a \<noteq> priv_cards self \<longrightarrow>
          cells (snd (Deck_add_card self (VCard c) h)) a = cells h a)
   \<and> next_free (snd (Deck_add_card self (VCard c) h)) = next_free h"
  by (simp add: Deck_add_card_def list_mutate_def)

theorem Deck_add_card_cases_witness:
  "\<not> isinstance_Card (VStr ''joker'')
   \<and> Deck_add_card \<lparr>priv_cards = 0\<rparr> (VStr ''joker'')
        \<lparr>cells = (\<lambda>a. [])(0 := [Card HEARTS TEN]), next_free = 1\<rparr>
       = (Inl TypeError, \<lparr>cells = (\<lambda>a. [])(0 := [Card HEARTS TEN]), next_free = 1\<rparr>)
   \<and> cells (snd (Deck_add_card \<lparr>priv_cards = 0\<rparr> (VCard (Card HEARTS TEN))
        \<lparr>cells = (\<lambda>a. [])(0 := [Card HEARTS TEN], 1 := [Card CLUBS TWO]), next_free = 2\<rparr>)) 1
       = [Card CLUBS TWO]"
proof -
  have n: "\<not> isinstance_Card (VStr ''joker'')" by simp
  have o: "(1::nat) \<noteq> priv_cards \<lparr>priv_cards = 0\<rparr>" by simp
  show ?thesis
    using n o
      Deck_add_card_cases [of "VStr ''joker''" "\<lparr>priv_cards = 0\<rparr>"
        "\<lparr>cells = (\<lambda>a. [])(0 := [Card HEARTS TEN]), next_free = 1\<rparr>"]
      Deck_add_card_cases [of _ "\<lparr>priv_cards = 0\<rparr>"
        "\<lparr>cells = (\<lambda>a. [])(0 := [Card HEARTS TEN], 1 := [Card CLUBS TWO]), next_free = 2\<rparr>"
        "Card HEARTS TEN"]
    by simp
qed

text \<open>
  C10. On a deck of \<open>N \<ge> 1\<close> cards and for \<open>1 \<le> k \<le> N\<close>, \<open>deck[-k]\<close> is the card at
  position \<open>N - k\<close>; it does not raise \<open>IndexError\<close>.
\<close>

theorem Deck_getitem_negative:
  assumes "1 \<le> k" and "k \<le> int (Deck_len self h)"
  shows "Deck_getitem self (- k) h
           = Inr (cells h (priv_cards self) ! (Deck_len self h - nat k))"
proof -
  let ?n = "int (length (cells h (priv_cards self)))"
  from assms have neg: "- k < 0" and lo: "\<not> - k + ?n < 0" and hi: "\<not> ?n \<le> - k + ?n"
    by (simp_all add: Deck_len_def)
  from assms have "nat (- k + ?n) = length (cells h (priv_cards self)) - nat k"
    by (simp add: Deck_len_def nat_diff_distrib')
  with neg lo hi show ?thesis
    by (simp add: Deck_getitem_def list_getitem_def Deck_len_def Let_def)
qed

theorem Deck_getitem_negative_witness:
  "(1::int) \<le> 2
   \<and> 2 \<le> int (Deck_len \<lparr>priv_cards = 0\<rparr>
        \<lparr>cells = (\<lambda>a. [])(0 := [Card HEARTS TEN, Card CLUBS ACE, Card SPADES TWO]), next_free = 1\<rparr>)
   \<and> Deck_getitem \<lparr>priv_cards = 0\<rparr> (- 2)
        \<lparr>cells = (\<lambda>a. [])(0 := [Card HEARTS TEN, Card CLUBS ACE, Card SPADES TWO]), next_free = 1\<rparr>
       = Inr (Card CLUBS ACE)"
proof -
  let ?d = "\<lparr>priv_cards = 0\<rparr>"
  let ?h = "\<lparr>cells = (\<lambda>a. [])(0 := [Card HEARTS TEN, Card CLUBS ACE, Card SPADES TWO]),
             next_free = 1\<rparr>"
  have a: "(1::int) \<le> 2" by simp
  have b: "2 \<le> int (Deck_len ?d ?h)" by (simp add: Deck_len_def)
  from Deck_getitem_negative [OF a b] a b show ?thesis by (simp add: Deck_len_def)
qed

text \<open>
  C9. The \<open>cards\<close> accessor returns a list object that did not exist before, holding
  the deck's contents in order, and changes no object that existed. Two calls in a row
  return two different objects with equal contents. Whatever a caller then does to one
  of the returned lists, the deck's list and the other returned list stay as they were.
\<close>

theorem Deck_cards_snapshot:
  assumes "priv_cards self < next_free h"
    and "Deck_cards self h = (s1, h1)"
    and "Deck_cards self h1 = (s2, h2)"
  shows "\<not> s1 < next_free h \<and> s1 \<noteq> priv_cards self
   \<and> cells h1 s1 = cells h (priv_cards self)
   \<and> (\<forall>a. a < next_free h \<longrightarrow> cells h1 a = cells h a)
   \<and> s2 \<noteq> s1 \<and> s2 \<noteq> priv_cards self
   \<and> cells h2 s2 = cells h2 s1
   \<and> cells h2 s2 = cells h (priv_cards self)
   \<and> cells h2 (priv_cards self) = cells h (priv_cards self)
   \<and> (\<forall>f. cells (list_mutate s1 f h2) (priv_cards self) = cells h (priv_cards self)
          \<and> cells (list_mutate s1 f h2) s2 = cells h2 s2
          \<and> cells (list_mutate s2 f h2) (priv_cards self) = cells h (priv_cards self)
          \<and> cells (list_mutate s2 f h2) s1 = cells h2 s1)"
proof -
  from assms(2) have s1: "s1 = next_free h"
    and h1: "h1 = h\<lparr>cells := (cells h)(next_free h := cells h (priv_cards self)),
                    next_free := Suc (next_free h)\<rparr>"
    by (auto simp: Deck_cards_def list_new_def)
  from assms(1) have d: "priv_cards self \<noteq> next_free h" and d': "priv_cards self \<noteq> Suc (next_free h)"
    by simp_all
  from assms(3) have s2: "s2 = Suc (next_free h)"
    and h2: "h2 = h1\<lparr>cells := (cells h1)(Suc (next_free h) := cells h1 (priv_cards self)),
                     next_free := Suc (Suc (next_free h))\<rparr>"
    by (auto simp: Deck_cards_def list_new_def h1)
  have fresh: "\<not> s1 < next_free h \<and> s1 \<noteq> priv_cards self"
    using d by (simp add: s1)
  have copy1: "cells h1 s1 = cells h (priv_cards self)"
    by (simp add: s1 h1)
  have frame1: "\<forall>a. a < next_free h \<longrightarrow> cells h1 a = cells h a"
    by (simp add: h1)
  have distinct: "s2 \<noteq> s1 \<and> s2 \<noteq> priv_cards self"
    using d' by (simp add: s1 s2)
  have copy2: "cells h2 s2 = cells h2 s1 \<and> cells h2 s2 = cells h (priv_cards self)
      \<and> cells h2 (priv_cards self) = cells h (priv_cards self)"
    using d d' by (simp add: s1 s2 h2 h1)
  have mut: "cells (list_mutate s1 f h2) (priv_cards self) = cells h (priv_cards self)
          \<and> cells (list_mutate s1 f h2) s2 = cells h2 s2
          \<and> cells (list_mutate s2 f h2) (priv_cards self) = cells h (priv_cards self)
          \<and> cells (list_mutate s2 f h2) s1 = cells h2 s1" for f
    using d d' by (simp add: list_mutate_def s1 s2 h2 h1)
  from fresh copy1 frame1 distinct copy2 mut show ?thesis by blast
qed

theorem Deck_cards_snapshot_witness:
  "priv_cards \<lparr>priv_cards = 0\<rparr>
      < next_free \<lparr>cells = (\<lambda>a. [])(0 := [Card HEARTS TEN, Card CLUBS ACE]), next_free = 1\<rparr>
   \<and> fst (Deck_cards \<lparr>priv_cards = 0\<rparr>
        \<lparr>cells = (\<lambda>a. [])(0 := [Card HEARTS TEN, Card CLUBS ACE]), next_free = 1\<rparr>) = 1
   \<and> cells (snd (Deck_cards \<lparr>priv_cards = 0\<rparr>
        \<lparr>cells = (\<lambda>a. [])(0 := [Card HEARTS TEN, Card CLUBS ACE]), next_free = 1\<rparr>)) 1
       = [Card HEARTS TEN, Card CLUBS ACE]
   \<and> cells (list_mutate 1 (\<lambda>xs. [])
        (snd (Deck_cards \<lparr>priv_cards = 0\<rparr>
          (snd (Deck_cards \<lparr>priv_cards = 0\<rparr>
            \<lparr>cells = (\<lambda>a. [])(0 := [Card HEARTS TEN, Card CLUBS ACE]), next_free = 1\<rparr>))))) 0
       = [Card HEARTS TEN, Card CLUBS ACE]"
proof -
  let ?d = "\<lparr>priv_cards = 0\<rparr>"
  let ?h = "\<lparr>cells = (\<lambda>a. [])(0 := [Card HEARTS TEN, Card CLUBS ACE]), next_free = 1\<rparr>"
  let ?h1 = "snd (Deck_cards ?d ?h)"
  have a: "priv_cards ?d < next_free ?h" by simp
  have b: "Deck_cards ?d ?h = (1, ?h1)" by (simp add: Deck_cards_def list_new_def)
  have c: "Deck_cards ?d ?h1 = (fst (Deck_cards ?d ?h1), snd (Deck_cards ?d ?h1))" by simp
  note snap = Deck_cards_snapshot [OF a b c]
  from snap have copy: "cells ?h1 1 = cells ?h (priv_cards ?d)"
    by blast
  from snap have kept: "cells (list_mutate 1 (\<lambda>xs. []) (snd (Deck_cards ?d ?h1))) (priv_cards ?d)
      = cells ?h (priv_cards ?d)"
    by blast
  have first: "fst (Deck_cards ?d ?h) = 1"
    by (simp add: Deck_cards_def list_new_def)
  from a first copy kept show ?thesis by simp
qed

lemma Deck_iter_Nil: "cells h (priv_cards self) = [] \<Longrightarrow> Deck_iter self h = []"
  by (simp add: Deck_iter_def Deck_max_def Deck_min_def)

lemma Deck_iter_Cons:
  "cells h (priv_cards self) = c # cs \<Longrightarrow> Deck_iter self h = [max_loop c cs, min_loop c cs]"
  by (simp add: Deck_iter_def Deck_max_def Deck_min_def)

text \<open>
  C1. Iterating an empty deck yields nothing. Iterating any other deck yields exactly
  two values: first the result of \<open>max\<close>, a card of the deck that no card of the deck is
  greater than, then the result of \<open>min\<close>, a card of the deck that no card of the deck is
  smaller than. Iteration does not walk the cards: whatever the size of the deck, the
  number of values is 0 or 2, so on a deck of more than two cards it is below the number
  of cards, and on every deck of one card or of more than two cards the values yielded
  are not the contents of the deck.
\<close>

theorem Deck_iter_extremes:
  "(cells h (priv_cards self) = [] \<longrightarrow> Deck_iter self h = [])
   \<and> (cells h (priv_cards self) \<noteq> [] \<longrightarrow>
        (\<exists>hi lo. Deck_iter self h = [hi, lo]
           \<and> Deck_max self h = Some hi \<and> Deck_min self h = Some lo
           \<and> hi \<in> set (cells h (priv_cards self)) \<and> lo \<in> set (cells h (priv_cards self))
           \<and> (\<forall>x \<in> set (cells h (priv_cards self)).
                 Card_gt x (VCard hi) = PyBool False \<and> Card_lt x (VCard lo) = PyBool False)))
   \<and> length (Deck_iter self h) = (if Deck_len self h = 0 then 0 else 2)
   \<and> (2 < Deck_len self h \<longrightarrow> length (Deck_iter self h) < Deck_len self h)
   \<and> (Deck_len self h = 1 \<or> 2 < Deck_len self h \<longrightarrow>
        Deck_iter self h \<noteq> cells h (priv_cards self))"
proof -
  let ?xs = "cells h (priv_cards self)"
  have empty: "?xs = [] \<longrightarrow> Deck_iter self h = []"
    by (simp add: Deck_iter_Nil)
  have two: "?xs \<noteq> [] \<longrightarrow>
        (\<exists>hi lo. Deck_iter self h = [hi, lo]
           \<and> Deck_max self h = Some hi \<and> Deck_min self h = Some lo
           \<and> hi \<in> set ?xs \<and> lo \<in> set ?xs
           \<and> (\<forall>x \<in> set ?xs.
                 Card_gt x (VCard hi) = PyBool False \<and> Card_lt x (VCard lo) = PyBool False))"
  proof
    assume "?xs \<noteq> []"
    then obtain c cs where xs: "?xs = c # cs" by (cases ?xs) auto
    have "Deck_iter self h = [max_loop c cs, min_loop c cs]"
      using xs by (rule Deck_iter_Cons)
    moreover have "Deck_max self h = Some (max_loop c cs)" "Deck_min self h = Some (min_loop c cs)"
      using xs by (simp_all add: Deck_max_def Deck_min_def)
    moreover have "max_loop c cs \<in> set ?xs" "min_loop c cs \<in> set ?xs"
      unfolding xs by (rule max_loop_mem, rule min_loop_mem)
    moreover have "\<forall>x \<in> set ?xs. Card_gt x (VCard (max_loop c cs)) = PyBool False
        \<and> Card_lt x (VCard (min_loop c cs)) = PyBool False"
      unfolding xs using max_loop_ge_all [of _ c cs] min_loop_le_all [of _ c cs]
      by (simp only: Card_gt_False_iff Card_lt_False_iff) blast
    ultimately show "\<exists>hi lo. Deck_iter self h = [hi, lo]
           \<and> Deck_max self h = Some hi \<and> Deck_min self h = Some lo
           \<and> hi \<in> set ?xs \<and> lo \<in> set ?xs
           \<and> (\<forall>x \<in> set ?xs.
                 Card_gt x (VCard hi) = PyBool False \<and> Card_lt x (VCard lo) = PyBool False)"
      by blast
  qed
  have count: "length (Deck_iter self h) = (if Deck_len self h = 0 then 0 else 2)"
  proof (cases ?xs)
    case Nil
    then show ?thesis by (simp add: Deck_iter_Nil Deck_len_def)
  next
    case (Cons c cs)
    then have "Deck_iter self h = [max_loop c cs, min_loop c cs]"
      by (rule Deck_iter_Cons)
    with Cons show ?thesis by (simp add: Deck_len_def)
  qed
  have fewer: "2 < Deck_len self h \<longrightarrow> length (Deck_iter self h) < Deck_len self h"
    using count by simp
  have differs: "Deck_len self h = 1 \<or> 2 < Deck_len self h \<longrightarrow> Deck_iter self h \<noteq> ?xs"
  proof
    assume size: "Deck_len self h = 1 \<or> 2 < Deck_len self h"
    then have "length (Deck_iter self h) \<noteq> length ?xs"
      using count by (auto simp: Deck_len_def)
    then show "Deck_iter self h \<noteq> ?xs" by auto
  qed
  from empty two count fewer differs show ?thesis by blast
qed

theorem Deck_iter_extremes_witness:
  "Deck_iter \<lparr>priv_cards = 0\<rparr> empty_heap = []
   \<and> Deck_iter \<lparr>priv_cards = 0\<rparr>
        \<lparr>cells = (\<lambda>a. [])(0 := [Card HEARTS TEN, Card CLUBS ACE, Card SPADES TWO]), next_free = 1\<rparr>
       = [Card CLUBS ACE, Card SPADES TWO]
   \<and> Deck_iter \<lparr>priv_cards = 0\<rparr>
        \<lparr>cells = (\<lambda>a. [])(0 := [Card HEARTS TEN, Card CLUBS ACE, Card SPADES TWO]), next_free = 1\<rparr>
       \<noteq> [Card HEARTS TEN, Card CLUBS ACE, Card SPADES TWO]"
proof -
  let ?d = "\<lparr>priv_cards = 0\<rparr>"
  let ?h = "\<lparr>cells = (\<lambda>a. [])(0 := [Card HEARTS TEN, Card CLUBS ACE, Card SPADES TWO]),
             next_free = 1\<rparr>"
  have e: "cells empty_heap (priv_cards ?d) = []" by (simp add: empty_heap_def)
  have n: "cells ?h (priv_cards ?d) \<noteq> []" by simp
  have big: "Deck_len ?d ?h = 1 \<or> 2 < Deck_len ?d ?h" by (simp add: Deck_len_def)
  from Deck_iter_extremes [of empty_heap ?d] e have empty: "Deck_iter ?d empty_heap = []"
    by blast
  from Deck_iter_extremes [of ?h ?d] big have ne: "Deck_iter ?d ?h \<noteq> cells ?h (priv_cards ?d)"
    by blast
  from Deck_iter_extremes [of ?h ?d] n
  obtain hi lo where it: "Deck_iter ?d ?h = [hi, lo]"
    and hi: "Deck_max ?d ?h = Some hi" and lo: "Deck_min ?d ?h = Some lo"
    by blast
  have "Deck_max ?d ?h = Some (Card CLUBS ACE)"
    by (simp add: Deck_max_def Card_gt_def rank_suit_values_def tuple_gt_def)
  with hi have "hi = Card CLUBS ACE" by simp
  moreover have "Deck_min ?d ?h = Some (Card SPADES TWO)"
    by (simp add: Deck_min_def Card_lt_def rank_suit_values_def tuple_lt_def)
  with lo have "lo = Card SPADES TWO" by simp
  ultimately show ?thesis using empty it ne by simp
qed

end
